theory Spec2Isabelle
  imports Complex_Main "HOL-Library.Word"
begin

unbundle bit_operations_syntax

text \<open>
  A model of the script that switches a light on motion reported by a Shelly BLU Motion
  device: the decoder of BTHome service data (\<open>BTHomeDecoder\<close>), the callback of the
  BLE scanner with its filter on duplicate packets (\<open>BLEScanCallback\<close>), the handler
  of a packet with its filter on addresses (\<open>onReceivedPacket\<close>), and \<open>init\<close>. The
  global variables \<open>CONFIG\<close> and \<open>lastPacketId\<close> are passed to the functions that read
  them and returned by those that assign to them; what a function prints or calls is
  returned as a list.
\<close>

section \<open>Values of the script\<close>

text \<open>
  The service data of an advertisement is a byte string; \<open>buffer.at( i )\<close> yields the
  byte at index \<open>i\<close> as a number.
\<close>

type_synonym byte = "8 word"
type_synonym buffer = "byte list"

text \<open>
  The values that the script stores in objects and variables. \<open>JNum\<close> carries the exact
  rational value of a number: the integers of the script are far below \<open>2 ^ 53\<close> and
  exact as doubles; the rounding of the two products with the factors 0.01 and 0.1 to
  the nearest double is not modelled.
\<close>

datatype jsval = JUndefined | JNull | JBool bool | JNum rat | JNaN | JStr string

text \<open>The operator \<open>===\<close>: equality of type and value, where NaN equals nothing.\<close>

definition strict_eq :: "jsval \<Rightarrow> jsval \<Rightarrow> bool" where
  "strict_eq a b = (if a = JNaN then False else a = b)"

text \<open>
  An object is the list of its properties in insertion order. Assigning to a property
  that exists replaces its value in place; a new property goes to the end. Reading a
  property that does not exist yields \<open>undefined\<close>.
\<close>

type_synonym obj = "(string \<times> jsval) list"

fun obj_set :: "obj \<Rightarrow> string \<Rightarrow> jsval \<Rightarrow> obj" where
  "obj_set [] k v = [(k, v)]"
| "obj_set ((k', v') # ps) k v = (if k' = k then (k, v) # ps else (k', v') # obj_set ps k v)"

fun obj_get :: "obj \<Rightarrow> string \<Rightarrow> jsval" where
  "obj_get [] k = JUndefined"
| "obj_get ((k', v') # ps) k = (if k' = k then v' else obj_get ps k)"

section \<open>Integer operators\<close>

text \<open>
  The readers work on integers and on \<open>undefined\<close> (\<open>None\<close>), which is what \<open>at\<close> yields
  beyond the end of the string. The bitwise operators convert each operand to a signed
  32-bit integer first (\<open>undefined\<close> becomes 0), take the shift count modulo 32, and
  yield a signed 32-bit integer.
\<close>

definition at_idx :: "buffer \<Rightarrow> nat \<Rightarrow> int option" where
  "at_idx buffer i = (if i < length buffer then Some (uint (buffer ! i)) else None)"

fun ToInt32 :: "int option \<Rightarrow> int" where
  "ToInt32 None = 0"
| "ToInt32 (Some n) = signed_take_bit 31 n"

definition shl :: "int option \<Rightarrow> int \<Rightarrow> int" where
  "shl a n = signed_take_bit 31 (push_bit (nat (n mod 32)) (ToInt32 a))"

definition sar :: "int option \<Rightarrow> int \<Rightarrow> int" where
  "sar a n = drop_bit (nat (n mod 32)) (ToInt32 a)"

definition band :: "int option \<Rightarrow> int option \<Rightarrow> int" where
  "band a b = ToInt32 a AND ToInt32 b"

definition bor :: "int option \<Rightarrow> int option \<Rightarrow> int" where
  "bor a b = ToInt32 a OR ToInt32 b"

section \<open>Field schema\<close>

definition uint8 :: nat where "uint8 = 0"
definition int8 :: nat where "int8 = 1"
definition uint16 :: nat where "uint16 = 2"
definition int16 :: nat where "int16 = 3"
definition uint24 :: nat where "uint24 = 4"
definition int24 :: nat where "int24 = 5"

lemmas type_defs = uint8_def int8_def uint16_def int16_def uint24_def int24_def

text \<open>An entry of \<open>BTH\<close>: name \<open>n\<close>, type \<open>t\<close>, optional factor \<open>f\<close>, optional unit \<open>u\<close>;
  the table is indexed by the number that \<open>at\<close> yields.\<close>

record bth_entry =
  bth_n :: string
  bth_t :: nat
  bth_f :: "rat option"
  bth_u :: "string option"

definition BTH :: "int \<Rightarrow> bth_entry option" where
  "BTH tag =
    (if tag = 0x00 then Some \<lparr>bth_n = ''pid'', bth_t = uint8, bth_f = None, bth_u = None\<rparr>
     else if tag = 0x01 then Some \<lparr>bth_n = ''battery'', bth_t = uint8, bth_f = None, bth_u = Some ''%''\<rparr>
     else if tag = 0x02 then Some \<lparr>bth_n = ''temperature'', bth_t = int16, bth_f = Some (1 / 100), bth_u = Some ''tC''\<rparr>
     else if tag = 0x03 then Some \<lparr>bth_n = ''humidity'', bth_t = uint16, bth_f = Some (1 / 100), bth_u = Some ''%''\<rparr>
     else if tag = 0x05 then Some \<lparr>bth_n = ''illuminance'', bth_t = uint24, bth_f = Some (1 / 100), bth_u = None\<rparr>
     else if tag = 0x21 then Some \<lparr>bth_n = ''motion'', bth_t = uint8, bth_f = None, bth_u = None\<rparr>
     else if tag = 0x2d then Some \<lparr>bth_n = ''window'', bth_t = uint8, bth_f = None, bth_u = None\<rparr>
     else if tag = 0x3a then Some \<lparr>bth_n = ''button'', bth_t = uint8, bth_f = None, bth_u = None\<rparr>
     else if tag = 0x3f then Some \<lparr>bth_n = ''rotation'', bth_t = int16, bth_f = Some (1 / 10), bth_u = None\<rparr>
     else None)"

definition getByteSize :: "nat \<Rightarrow> nat" where
  "getByteSize type =
    (if type = uint8 \<or> type = int8 then 1
     else if type = uint16 \<or> type = int16 then 2
     else if type = uint24 \<or> type = int24 then 3
     else 255)"

section \<open>BTHomeDecoder: the integer readers\<close>

text \<open>
  \<open>utoi\<close>: when \<open>num\<close> is \<open>undefined\<close>, \<open>num & mask\<close> is 0 and \<open>num\<close> itself is returned.
  The subtraction is one of numbers, not a 32-bit operation.
\<close>

fun utoi :: "int option \<Rightarrow> int \<Rightarrow> int option" where
  "utoi None bitsz = None"
| "utoi (Some num) bitsz =
    (let mask = shl (Some 1) (bitsz - 1)
     in if band (Some num) (Some mask) \<noteq> 0 then Some (num - shl (Some 1) bitsz) else Some num)"

definition getUInt8 :: "buffer \<Rightarrow> int option" where
  "getUInt8 buffer = at_idx buffer 0"

definition getInt8 :: "buffer \<Rightarrow> int option" where
  "getInt8 buffer = utoi (getUInt8 buffer) 8"

definition getUInt16LE :: "buffer \<Rightarrow> int" where
  "getUInt16LE buffer = band (Some 0xffff) (Some (bor (Some (shl (at_idx buffer 1) 8)) (at_idx buffer 0)))"

definition getInt16LE :: "buffer \<Rightarrow> int option" where
  "getInt16LE buffer = utoi (Some (getUInt16LE buffer)) 16"

definition getUInt24LE :: "buffer \<Rightarrow> int" where
  "getUInt24LE buffer =
    band (Some 0x00ffffff)
      (Some (bor (Some (bor (Some (shl (at_idx buffer 2) 16)) (Some (shl (at_idx buffer 1) 8))))
        (at_idx buffer 0)))"

definition getInt24LE :: "buffer \<Rightarrow> int option" where
  "getInt24LE buffer = utoi (Some (getUInt24LE buffer)) 24"

text \<open>
  The result of \<open>getBufValue\<close> is \<open>null\<close> or the value of a reader. The six tests on
  \<open>type\<close> exclude each other, so the chain of assignments is a chain of alternatives;
  \<open>res\<close> stays \<open>null\<close> for a type that is none of the six.
\<close>

datatype bufval = BNull | BVal "int option"

definition getBufValue :: "nat \<Rightarrow> buffer \<Rightarrow> bufval" where
  "getBufValue type buffer =
    (if length buffer < getByteSize type then BNull
     else if type = uint8 then BVal (getUInt8 buffer)
     else if type = int8 then BVal (getInt8 buffer)
     else if type = uint16 then BVal (Some (getUInt16LE buffer))
     else if type = int16 then BVal (getInt16LE buffer)
     else if type = uint24 then BVal (Some (getUInt24LE buffer))
     else if type = int24 then BVal (getInt24LE buffer)
     else BNull)"

section \<open>Configuration, console and handlers\<close>

text \<open>
  \<open>allowedMacAddresses\<close> and \<open>_processedMacAddresses\<close> are \<open>undefined\<close>, \<open>null\<close> or a list
  of strings. A handler is a function or not; the bodies of the three handlers belong to
  the user's part of the script, so a call of a handler is recorded with its arguments.
\<close>

datatype maclist = MacUndefined | MacNull | MacList "string list"

datatype handler = NotAFunction | Function

record config =
  debug :: bool
  active :: bool
  allowedMacAddresses :: maclist
  processedMacAddresses :: maclist
  illuThreshold :: rat
  motionHandler :: handler
  illuminanceHandler :: handler
  onStatusUpdate :: handler

definition CONFIG :: config where
  "CONFIG = \<lparr>debug = True, active = False,
     allowedMacAddresses = MacList [''b0:c7:de:3b:29:15''],
     processedMacAddresses = MacUndefined, illuThreshold = 15,
     motionHandler = Function, illuminanceHandler = Function, onStatusUpdate = Function\<rparr>"

text \<open>
  A line of the console is the prefix as printed and the message whose JSON text follows
  it (a string, or the elements of an array, each printed after a blank).
\<close>

datatype message = MsgStr string | MsgArr "jsval list"

datatype effect =
    ConsoleLog string message
  | CallMotionHandler bool obj
  | CallIlluminanceHandler jsval obj
  | CallOnStatusUpdate obj

definition logger :: "config \<Rightarrow> message \<Rightarrow> jsval \<Rightarrow> effect list" where
  "logger cfg msg prefix =
    (if \<not> debug cfg then []
     else [ConsoleLog (case prefix of JStr p \<Rightarrow> p @ '':'' | _ \<Rightarrow> []) msg])"

section \<open>BTHomeDecoder.unpack\<close>

fun truthy :: "jsval \<Rightarrow> bool" where
  "truthy JUndefined = False"
| "truthy JNull = False"
| "truthy (JBool b) = b"
| "truthy (JNum r) = (r \<noteq> 0)"
| "truthy JNaN = False"
| "truthy (JStr s) = (s \<noteq> [])"

text \<open>The value of a reader as stored, and its product with a factor.\<close>

fun js_of :: "int option \<Rightarrow> jsval" where
  "js_of None = JUndefined"
| "js_of (Some k) = JNum (of_int k)"

fun js_times :: "int option \<Rightarrow> rat \<Rightarrow> jsval" where
  "js_times None fac = JNaN"
| "js_times (Some k) fac = JNum (of_int k * fac)"

text \<open>
  One pass through the body of the \<open>while\<close> loop, entered with a non-empty buffer: it
  leaves the loop by \<open>break\<close>, with what it logged, or ends with a new record and a
  shorter buffer.
\<close>

datatype body_result = Break "effect list" | Next obj buffer

definition loop_body :: "config \<Rightarrow> obj \<Rightarrow> buffer \<Rightarrow> body_result" where
  "loop_body cfg result buffer =
    (case Option.bind (at_idx buffer 0) BTH of
       None \<Rightarrow> Break (logger cfg (MsgStr ''unknown type'') (JStr ''BTH''))
     | Some bth \<Rightarrow>
         (let buffer1 = drop 1 buffer
          in case getBufValue (bth_t bth) buffer1 of
               BNull \<Rightarrow> Break []
             | BVal v \<Rightarrow>
                 Next
                   (obj_set result (bth_n bth)
                     (case bth_f bth of None \<Rightarrow> js_of v | Some fac \<Rightarrow> js_times v fac))
                   (drop (getByteSize (bth_t bth)) buffer1)))"

lemma loop_body_shorter:
  assumes "loop_body cfg result buffer = Next result' buffer'"
  shows "length buffer' < length buffer"
proof -
  from assms have "at_idx buffer 0 \<noteq> None"
    by (cases "at_idx buffer 0") (simp_all add: loop_body_def)
  then have "0 < length buffer"
    by (simp add: at_idx_def split: if_splits)
  moreover from assms have "length buffer' \<le> length (drop 1 buffer)"
    by (auto simp: loop_body_def Let_def split: option.splits bufval.splits)
  ultimately show ?thesis by (cases buffer) simp_all
qed

function unpack_loop :: "config \<Rightarrow> obj \<Rightarrow> buffer \<Rightarrow> obj \<times> effect list" where
  "unpack_loop cfg result buffer =
    (if length buffer > 0
     then (case loop_body cfg result buffer of
             Break out \<Rightarrow> (result, out)
           | Next result' buffer' \<Rightarrow> unpack_loop cfg result' buffer')
     else (result, []))"
  by pat_completeness auto
termination
  by (relation "measure (\<lambda>(cfg, result, buffer). length buffer)")
    (auto dest: loop_body_shorter)

declare unpack_loop.simps [simp del]

text \<open>The number of times the body of the loop is entered.\<close>

function unpack_iterations :: "config \<Rightarrow> obj \<Rightarrow> buffer \<Rightarrow> nat" where
  "unpack_iterations cfg result buffer =
    (if length buffer > 0
     then Suc (case loop_body cfg result buffer of
                 Break out \<Rightarrow> 0
               | Next result' buffer' \<Rightarrow> unpack_iterations cfg result' buffer')
     else 0)"
  by pat_completeness auto
termination
  by (relation "measure (\<lambda>(cfg, result, buffer). length buffer)")
    (auto dest: loop_body_shorter)

declare unpack_iterations.simps [simp del]

text \<open>
  The argument of \<open>unpack\<close> is a string or something else; the result is \<open>null\<close>
  (\<open>None\<close>) or the record, together with what was logged.
\<close>

datatype jsdata = DString buffer | DNotString

fun unpack :: "config \<Rightarrow> jsdata \<Rightarrow> obj option \<times> effect list" where
  "unpack cfg DNotString = (None, [])"
| "unpack cfg (DString buffer) =
    (if length buffer = 0 then (None, [])
     else
       (let dib = at_idx buffer 0;
            result = obj_set [] ''encryption'' (JBool (band dib (Some 1) \<noteq> 0));
            result = obj_set result ''BTHome_version'' (JNum (of_int (sar dib 5)))
        in if \<not> strict_eq (obj_get result ''BTHome_version'') (JNum 2) then (None, [])
           else if truthy (obj_get result ''encryption'') then (Some result, [])
           else (case unpack_loop cfg result (drop 1 buffer) of
                   (result', out) \<Rightarrow> (Some result', out))))"

section \<open>The allowed addresses\<close>

text \<open>
  \<open>toLowerCase\<close> on the letters A to Z; the addresses are strings of hexadecimal digits
  and colons.
\<close>

definition lower_char :: "char \<Rightarrow> char" where
  "lower_char c =
    (if (65::nat) \<le> of_char c \<and> of_char c \<le> (90::nat) then char_of (of_char c + (32::nat)) else c)"

definition toLowerCase :: "string \<Rightarrow> string" where
  "toLowerCase s = map lower_char s"

text \<open>\<open>indexOf\<close>: the index of the first element that is equal, or -1.\<close>

fun indexOf :: "'a list \<Rightarrow> 'a \<Rightarrow> int" where
  "indexOf [] x = - 1"
| "indexOf (y # ys) x =
    (if y = x then 0 else (let i = indexOf ys x in if i < 0 then - 1 else i + 1))"

text \<open>The filter of \<open>init\<close> keeps an element where \<open>array.indexOf( value ) === index\<close>.\<close>

definition first_occurrences :: "'a list \<Rightarrow> 'a list" where
  "first_occurrences array =
    map snd (filter (\<lambda>(index, value). indexOf array value = int index) (enumerate 0 array))"

text \<open>
  \<open>init\<close>, with what the device answers: whether Bluetooth is enabled, whether a scanner
  runs, and whether a new scanner could be started. The result is the configuration,
  whether \<open>BLEScanCallback\<close> was subscribed, and the lines printed. (\<open>CONFIG\<close> is
  defined, so the first test of \<open>init\<close> never holds.)
\<close>

record host =
  ble_enable :: bool
  scanner_isRunning :: bool
  scanner_Start :: bool

definition init :: "host \<Rightarrow> config \<Rightarrow> config \<times> bool \<times> string list" where
  "init h cfg =
    (if \<not> ble_enable h
     then (cfg, False, [''Error: The Bluetooth is not enabled, please enable it from settings''])
     else
       (let out =
              (if scanner_isRunning h
               then [''Info: The BLE gateway is running, the BLE scan configuration is managed by the device'']
               else if \<not> scanner_Start h then [''Error: Can not start new scanner'']
               else []);
            cfg' =
              (case allowedMacAddresses cfg of
                 MacUndefined \<Rightarrow> cfg
               | MacNull \<Rightarrow> cfg\<lparr>processedMacAddresses := MacNull\<rparr>
               | MacList macs \<Rightarrow>
                   cfg\<lparr>processedMacAddresses :=
                     MacList (first_occurrences (map toLowerCase macs))\<rparr>)
        in (cfg', True, out)))"

section \<open>The handler of a packet and the scan callback\<close>

text \<open>
  Each way through \<open>BLEScanCallback\<close> and \<open>onReceivedPacket\<close> is named: the two early
  returns for an event that is no scan result or has no BTHome service data, the return
  for data that is \<open>null\<close> or encrypted, the return for a duplicate, the return for an
  address outside the allowed ones, and the way to the handlers. Where
  \<open>_processedMacAddresses\<close> is \<open>undefined\<close>, it is not \<open>null\<close> and the call of its
  \<open>indexOf\<close> throws. \<open>handlers\<close> is the part of \<open>onReceivedPacket\<close> after the test of
  the address: the three calls, each with the line it logs.
\<close>

datatype outcome =
  Ignored | Undecodable | Duplicate | AddressNotAllowed | Admitted | TypeError

definition handlers :: "config \<Rightarrow> obj \<Rightarrow> effect list" where
  "handlers cfg data =
    (if motionHandler cfg = Function \<and> obj_get data ''motion'' \<noteq> JUndefined
     then CallMotionHandler (strict_eq (obj_get data ''motion'') (JNum 1)) data
       # logger cfg (MsgStr ''Motion handler called'') (JStr ''Info'')
     else [])
    @ (if illuminanceHandler cfg = Function \<and> obj_get data ''illuminance'' \<noteq> JUndefined
       then CallIlluminanceHandler (obj_get data ''illuminance'') data
         # logger cfg (MsgStr ''Illuminance handler called'') (JStr ''Info'')
       else [])
    @ (if onStatusUpdate cfg = Function
       then CallOnStatusUpdate data # logger cfg (MsgStr ''New status update'') (JStr ''Info'')
       else [])"

definition onReceivedPacket :: "config \<Rightarrow> obj \<Rightarrow> outcome \<times> effect list" where
  "onReceivedPacket cfg data =
    (case processedMacAddresses cfg of
       MacUndefined \<Rightarrow> (TypeError, [])
     | MacNull \<Rightarrow> (Admitted, handlers cfg data)
     | MacList macs \<Rightarrow>
         if indexOf (map JStr macs) (obj_get data ''address'') < 0
         then (AddressNotAllowed,
               logger cfg
                 (MsgArr [JStr ''Received event from'', obj_get data ''address'',
                          JStr ''outside of the allowed addresses''])
                 (JStr ''Info''))
         else (Admitted, handlers cfg data))"

datatype ble_event = SCAN_START | SCAN_STOP | SCAN_RESULT

definition BTHOME_SVC_ID_STR :: string where
  "BTHOME_SVC_ID_STR = ''fcd2''"

record scan_result =
  service_data :: "(string \<times> jsdata) list option"
  rssi :: int
  addr :: string

record state =
  lastPacketId :: jsval

definition initial_state :: state where
  "initial_state = \<lparr>lastPacketId = JNum 0x100\<rparr>"

definition BLEScanCallback ::
  "config \<Rightarrow> state \<Rightarrow> ble_event \<Rightarrow> scan_result \<Rightarrow> state \<times> outcome \<times> effect list" where
  "BLEScanCallback cfg st event result =
    (if event \<noteq> SCAN_RESULT then (st, Ignored, [])
     else case service_data result of
       None \<Rightarrow> (st, Ignored, [])
     | Some sd \<Rightarrow>
        (case map_of sd BTHOME_SVC_ID_STR of
           None \<Rightarrow> (st, Ignored, [])
         | Some d \<Rightarrow>
            (case unpack cfg d of
               (None, out) \<Rightarrow>
                 (st, Undecodable,
                  out @ logger cfg (MsgStr ''Encrypted devices are not supported'') (JStr ''Error''))
             | (Some unpackedData, out) \<Rightarrow>
                 if truthy (obj_get unpackedData ''encryption'')
                 then (st, Undecodable,
                       out @ logger cfg (MsgStr ''Encrypted devices are not supported'') (JStr ''Error''))
                 else if strict_eq (lastPacketId st) (obj_get unpackedData ''pid'')
                 then (st, Duplicate, out)
                 else
                   (let st' = st\<lparr>lastPacketId := obj_get unpackedData ''pid''\<rparr>;
                        unpackedData = obj_set unpackedData ''rssi'' (JNum (of_int (rssi result)));
                        unpackedData = obj_set unpackedData ''address'' (JStr (addr result))
                    in case onReceivedPacket cfg unpackedData of
                         (oc, out') \<Rightarrow> (st', oc, out @ out')))))"

section \<open>Well-formed prefixes of a payload\<close>

text \<open>
  A complete field is a tag of \<open>BTH\<close> followed by as many bytes as its type has;
  \<open>fields_bytes\<close> is the byte string of a sequence of fields.
\<close>

definition complete_field :: "byte \<times> buffer \<Rightarrow> bool" where
  "complete_field fld =
    (case BTH (uint (fst fld)) of
       None \<Rightarrow> False
     | Some bth \<Rightarrow> length (snd fld) = getByteSize (bth_t bth))"

definition fields_bytes :: "(byte \<times> buffer) list \<Rightarrow> buffer" where
  "fields_bytes flds = concat (map (\<lambda>(tag, bs). tag # bs) flds)"

section \<open>Packets as the device delivers them\<close>

text \<open>
  \<open>decodes cfg r data\<close>: the scan result \<open>r\<close> has BTHome service data which \<open>unpack\<close>
  decodes to the record \<open>data\<close>, and \<open>data\<close> is not marked as encrypted.
  \<open>address_allowed cfg a\<close>: \<open>_processedMacAddresses\<close> is \<open>null\<close> or a list with \<open>a\<close> in it.
  \<open>run\<close>: the device calls \<open>BLEScanCallback\<close> with one scan result after the other.
\<close>

definition decodes :: "config \<Rightarrow> scan_result \<Rightarrow> obj \<Rightarrow> bool" where
  "decodes cfg r data =
    (case service_data r of
       None \<Rightarrow> False
     | Some sd \<Rightarrow>
        (case map_of sd BTHOME_SVC_ID_STR of
           None \<Rightarrow> False
         | Some d \<Rightarrow> fst (unpack cfg d) = Some data \<and> \<not> truthy (obj_get data ''encryption'')))"

definition address_allowed :: "config \<Rightarrow> string \<Rightarrow> bool" where
  "address_allowed cfg a =
    (case processedMacAddresses cfg of
       MacUndefined \<Rightarrow> False
     | MacNull \<Rightarrow> True
     | MacList macs \<Rightarrow> a \<in> set macs)"

fun run :: "config \<Rightarrow> state \<Rightarrow> scan_result list \<Rightarrow> state \<times> outcome list" where
  "run cfg st [] = (st, [])"
| "run cfg st (r # rs) =
    (case BLEScanCallback cfg st SCAN_RESULT r of
       (st', oc, out) \<Rightarrow> (case run cfg st' rs of (st'', ocs) \<Rightarrow> (st'', oc # ocs)))"

text \<open>
  \<open>decodes_without_pid cfg r\<close>: the scan result decodes to a record that is not marked
  as encrypted and has no property \<open>pid\<close>. \<open>pid_is_byte\<close>: the property \<open>pid\<close> of a
  record is absent or a number from 0 to 255.
\<close>

definition decodes_without_pid :: "config \<Rightarrow> scan_result \<Rightarrow> bool" where
  "decodes_without_pid cfg r =
    (case service_data r of
       None \<Rightarrow> False
     | Some sd \<Rightarrow>
        (case map_of sd BTHOME_SVC_ID_STR of
           None \<Rightarrow> False
         | Some d \<Rightarrow>
            (case fst (unpack cfg d) of
               None \<Rightarrow> False
             | Some data \<Rightarrow>
                 \<not> truthy (obj_get data ''encryption'') \<and> ''pid'' \<notin> fst ` set data)))"

definition pid_is_byte :: "obj \<Rightarrow> bool" where
  "pid_is_byte data =
    (case obj_get data ''pid'' of
       JUndefined \<Rightarrow> True
     | JNum x \<Rightarrow> 0 \<le> x \<and> x \<le> 255
     | _ \<Rightarrow> False)"

section \<open>Facts about the integer readers\<close>

lemma uint_byte_bounds: "0 \<le> uint (b::byte) \<and> uint b < 256"
  using uint_bounded [of b] by simp

lemma ToInt32_small: "0 \<le> k \<Longrightarrow> k < 2147483648 \<Longrightarrow> ToInt32 (Some k) = k"
  by (simp add: signed_take_bit_int_eq_self)

lemma shl_8: "0 \<le> k \<Longrightarrow> k < 256 \<Longrightarrow> shl (Some k) 8 = k * 256"
  by (simp add: shl_def signed_take_bit_int_eq_self push_bit_eq_mult)

lemma shl_16: "0 \<le> k \<Longrightarrow> k < 256 \<Longrightarrow> shl (Some k) 16 = k * 65536"
  by (simp add: shl_def signed_take_bit_int_eq_self push_bit_eq_mult)

lemma or_low: 
  fixes a b :: int
  assumes "0 \<le> a" "a < 2 ^ m"
  shows "b * 2 ^ m OR a = b * 2 ^ m + a"
proof -
  have "take_bit m a = a" using assms by (simp add: take_bit_int_eq_self)
  then have "concat_bit m a b = a OR push_bit m b" by (simp add: concat_bit_def)
  moreover have "concat_bit m a b = a + push_bit m b" using \<open>take_bit m a = a\<close> by (simp add: concat_bit_eq)
  ultimately show ?thesis by (simp add: push_bit_eq_mult ac_simps)
qed

lemma and_mask_low:
  fixes a :: int
  assumes "0 \<le> a" "a < 2 ^ m"
  shows "(2 ^ m - 1) AND a = a"
proof -
  have "a AND mask m = take_bit m a" by (simp add: take_bit_eq_mask)
  then show ?thesis using assms by (simp add: take_bit_int_eq_self mask_eq_exp_minus_1 ac_simps)
qed

lemma getUInt16LE_eq: "getUInt16LE (b0 # b1 # rest) = uint b0 + 256 * uint b1"
proof -
  let ?a = "uint b0" and ?b = "uint b1"
  have a: "0 \<le> ?a" "?a < 256" and b: "0 \<le> ?b" "?b < 256" using uint_byte_bounds by auto
  have s: "shl (Some ?b) 8 = ?b * 256" using b by (rule shl_8)
  have o: "?b * 2 ^ 8 OR ?a = ?b * 2 ^ 8 + ?a" using a by (intro or_low) auto
  have r: "0 \<le> ?b * 256 + ?a" "?b * 256 + ?a < 65536" using a b by auto
  have m: "(2 ^ 16 - 1) AND (?b * 256 + ?a) = ?b * 256 + ?a" using r by (intro and_mask_low) auto
  have "bor (Some (?b * 256)) (Some ?a) = ?b * 256 + ?a"
    using a b o by (simp add: bor_def ToInt32_small del: ToInt32.simps)
  moreover have "band (Some 65535) (Some (?b * 256 + ?a)) = ?b * 256 + ?a"
    using r m by (simp add: band_def ToInt32_small del: ToInt32.simps)
  ultimately show ?thesis
    by (simp add: getUInt16LE_def at_idx_def s)
qed

lemma getUInt24LE_eq: "getUInt24LE (b0 # b1 # b2 # rest) = uint b0 + 256 * uint b1 + 65536 * uint b2"
proof -
  let ?a = "uint b0" and ?b = "uint b1" and ?c = "uint b2"
  have a: "0 \<le> ?a" "?a < 256" and b: "0 \<le> ?b" "?b < 256" and c: "0 \<le> ?c" "?c < 256"
    using uint_byte_bounds by auto
  have s1: "shl (Some ?b) 8 = ?b * 256" using b by (rule shl_8)
  have s2: "shl (Some ?c) 16 = ?c * 65536" using c by (rule shl_16)
  have r1: "0 \<le> ?b * 256" "?b * 256 < 65536" using b by auto
  have o1: "?c * 2 ^ 16 OR ?b * 256 = ?c * 2 ^ 16 + ?b * 256" using r1 by (intro or_low) auto
  have r2: "0 \<le> ?c * 65536 + ?b * 256" "?c * 65536 + ?b * 256 < 16777216" using b c by auto
  have "(?c * 65536 + ?b * 256) = (?c * 256 + ?b) * 2 ^ 8" by simp
  moreover have "(?c * 256 + ?b) * 2 ^ 8 OR ?a = (?c * 256 + ?b) * 2 ^ 8 + ?a" using a by (intro or_low) auto
  ultimately have o2: "(?c * 65536 + ?b * 256) OR ?a = ?c * 65536 + ?b * 256 + ?a" by (simp only:)
  have r3: "0 \<le> ?c * 65536 + ?b * 256 + ?a" "?c * 65536 + ?b * 256 + ?a < 16777216" using a b c by auto
  have m: "(2 ^ 24 - 1) AND (?c * 65536 + ?b * 256 + ?a) = ?c * 65536 + ?b * 256 + ?a"
    using r3 by (intro and_mask_low) auto
  have "bor (Some (?c * 65536)) (Some (?b * 256)) = ?c * 65536 + ?b * 256"
    using b c o1 by (simp add: bor_def ToInt32_small del: ToInt32.simps)
  moreover have "bor (Some (?c * 65536 + ?b * 256)) (Some ?a) = ?c * 65536 + ?b * 256 + ?a"
    using a r2 o2 by (simp add: bor_def ToInt32_small del: ToInt32.simps)
  moreover have "band (Some 16777215) (Some (?c * 65536 + ?b * 256 + ?a)) = ?c * 65536 + ?b * 256 + ?a"
    using r3 m by (simp add: band_def ToInt32_small del: ToInt32.simps)
  ultimately show ?thesis
    by (simp add: getUInt24LE_def at_idx_def s1 s2)
qed

lemma and_top_bit:
  fixes k :: int
  assumes "0 \<le> k" "k < 2 * 2 ^ j"
  shows "(k AND 2 ^ j \<noteq> 0) = (2 ^ j \<le> k)"
proof (cases "2 ^ j \<le> k")
  case True
  have "k div 2 ^ j = (k - 2 ^ j) div 2 ^ j + 1"
    using True by (intro div_pos_geq) auto
  moreover have "(k - 2 ^ j) div 2 ^ j = 0"
    using True assms by (intro div_pos_pos_trivial) auto
  ultimately have "bit k j" by (simp add: bit_iff_odd)
  with True show ?thesis by (simp add: and_exp_eq_0_iff_not_bit)
next
  case False
  then have "k div 2 ^ j = 0" using assms by (intro div_pos_pos_trivial) auto
  then have "\<not> bit k j" by (simp add: bit_iff_odd)
  with False show ?thesis by (simp add: and_exp_eq_0_iff_not_bit)
qed

lemma utoi_8:
  assumes "0 \<le> k" "k < 256"
  shows "utoi (Some k) 8 = Some (if 128 \<le> k then k - 256 else k)"
proof -
  have "band (Some k) (Some 128) = k AND 2 ^ 7"
    using assms by (simp add: band_def ToInt32_small del: ToInt32.simps)
  moreover have "(k AND 2 ^ 7 \<noteq> 0) = (2 ^ 7 \<le> k)" using assms by (intro and_top_bit) auto
  ultimately show ?thesis by (simp add: shl_def Let_def)
qed

lemma utoi_16:
  assumes "0 \<le> k" "k < 65536"
  shows "utoi (Some k) 16 = Some (if 32768 \<le> k then k - 65536 else k)"
proof -
  have "band (Some k) (Some 32768) = k AND 2 ^ 15"
    using assms by (simp add: band_def ToInt32_small del: ToInt32.simps)
  moreover have "(k AND 2 ^ 15 \<noteq> 0) = (2 ^ 15 \<le> k)" using assms by (intro and_top_bit) auto
  ultimately show ?thesis by (simp add: shl_def Let_def)
qed

lemma utoi_24:
  assumes "0 \<le> k" "k < 16777216"
  shows "utoi (Some k) 24 = Some (if 8388608 \<le> k then k - 16777216 else k)"
proof -
  have "band (Some k) (Some 8388608) = k AND 2 ^ 23"
    using assms by (simp add: band_def ToInt32_small del: ToInt32.simps)
  moreover have "(k AND 2 ^ 23 \<noteq> 0) = (2 ^ 23 \<le> k)" using assms by (intro and_top_bit) auto
  ultimately show ?thesis by (simp add: shl_def Let_def)
qed

lemma top_bit_byte: "bit (b::byte) 7 = (128 \<le> uint b)"
proof -
  have "bit b 7 = bit (uint b) 7" by (simp add: bit_uint_iff)
  moreover have "(uint b AND 2 ^ 7 \<noteq> 0) = (2 ^ 7 \<le> uint b)" 
    using uint_byte_bounds [of b] by (intro and_top_bit) auto
  moreover have "(uint b AND 2 ^ 7 = 0) = (\<not> bit (uint b) 7)"
    by (rule and_exp_eq_0_iff_not_bit)
  ultimately show ?thesis by auto
qed


section \<open>Facts about the decoder\<close>

lemma at_idx_Cons0: "at_idx (b # bs) 0 = Some (uint b)"
  by (simp add: at_idx_def)

lemma unpack_loop_Nil: "unpack_loop cfg result [] = (result, [])"
  by (simp add: unpack_loop.simps)

lemma unpack_loop_unknown:
  assumes "BTH (uint tag) = None"
  shows "unpack_loop cfg result (tag # rest) =
    (result, logger cfg (MsgStr ''unknown type'') (JStr ''BTH''))"
  using assms by (subst unpack_loop.simps) (simp add: loop_body_def at_idx_Cons0)

lemma unpack_loop_truncated:
  assumes "BTH (uint tag) = Some bth" "getBufValue (bth_t bth) rest = BNull"
  shows "unpack_loop cfg result (tag # rest) = (result, [])"
  using assms by (subst unpack_loop.simps) (simp add: loop_body_def at_idx_Cons0)

lemma unpack_loop_field:
  assumes "BTH (uint tag) = Some bth" "getBufValue (bth_t bth) rest = BVal v"
  shows "unpack_loop cfg result (tag # rest) =
    unpack_loop cfg
      (obj_set result (bth_n bth) (case bth_f bth of None \<Rightarrow> js_of v | Some fac \<Rightarrow> js_times v fac))
      (drop (getByteSize (bth_t bth)) rest)"
  using assms by (subst unpack_loop.simps) (simp add: loop_body_def at_idx_Cons0)

lemma getBufValue_short: "length buffer < getByteSize type \<Longrightarrow> getBufValue type buffer = BNull"
  by (simp add: getBufValue_def)

lemma unpack_Cons:
  "unpack cfg (DString (h # body)) =
    (if sar (Some (uint h)) 5 \<noteq> 2 then (None, [])
     else if band (Some (uint h)) (Some 1) \<noteq> 0
     then (Some [(''encryption'', JBool True), (''BTHome_version'', JNum 2)], [])
     else (case unpack_loop cfg [(''encryption'', JBool False), (''BTHome_version'', JNum 2)] body of
             (result', out) \<Rightarrow> (Some result', out)))"
  by (simp add: at_idx_Cons0 strict_eq_def Let_def)

declare unpack.simps(2) [simp del]

lemma BTH_0: "BTH 0 = Some \<lparr>bth_n = ''pid'', bth_t = uint8, bth_f = None, bth_u = None\<rparr>"
  by (simp add: BTH_def)


lemma length_ge1: "(Suc 0 \<le> length bs) = (bs \<noteq> [])"
  by (cases bs) auto

lemma at_idx_append: "i < length bs \<Longrightarrow> at_idx (bs @ sfx) i = at_idx bs i"
  by (simp add: at_idx_def nth_append)

lemma getBufValue_append:
  assumes "getByteSize ty \<le> length bs"
  shows "getBufValue ty (bs @ sfx) = getBufValue ty bs"
proof -
  have "ty = uint8 \<or> ty = int8 \<or> ty = uint16 \<or> ty = int16 \<or> ty = uint24 \<or> ty = int24
      \<or> (ty \<noteq> uint8 \<and> ty \<noteq> int8 \<and> ty \<noteq> uint16 \<and> ty \<noteq> int16 \<and> ty \<noteq> uint24 \<and> ty \<noteq> int24)"
    by blast
  moreover have "bs \<noteq> []"
    using assms by (auto simp: getByteSize_def split: if_splits)
  then have "at_idx (bs @ sfx) 0 = at_idx bs 0"
    by (simp add: at_idx_append)
  ultimately show ?thesis
    using assms
    by (elim disjE)
      (simp_all add: getBufValue_def getByteSize_def type_defs getUInt8_def getInt8_def
        getUInt16LE_def getInt16LE_def getUInt24LE_def getInt24LE_def at_idx_append
        length_ge1 del: utoi.simps)
qed

lemma BTH_types:
  assumes "BTH k = Some bth"
  shows "bth_t bth = uint8 \<or> bth_t bth = uint16 \<or> bth_t bth = int16 \<or> bth_t bth = uint24"
  using assms by (auto simp: BTH_def split: if_splits)

lemma getBufValue_complete:
  assumes "BTH k = Some bth" "getByteSize (bth_t bth) \<le> length bs"
  shows "\<exists>v. getBufValue (bth_t bth) bs = BVal v"
  using BTH_types [OF assms(1)] assms(2)
  by (elim disjE) (simp_all add: getBufValue_def getByteSize_def type_defs length_ge1)

lemma unpack_loop_complete_field:
  assumes "complete_field (tag, bs)"
  shows "\<exists>result'. \<forall>sfx. unpack_loop cfg result (tag # bs @ sfx) = unpack_loop cfg result' sfx"
proof -
  from assms obtain bth where bth: "BTH (uint tag) = Some bth"
    and len: "length bs = getByteSize (bth_t bth)"
    by (auto simp: complete_field_def split: option.splits)
  from getBufValue_complete [OF bth, of bs] len obtain v where v: "getBufValue (bth_t bth) bs = BVal v"
    by auto
  have "unpack_loop cfg result (tag # bs @ sfx) =
      unpack_loop cfg
        (obj_set result (bth_n bth) (case bth_f bth of None \<Rightarrow> js_of v | Some fac \<Rightarrow> js_times v fac))
        sfx" for sfx
  proof -
    have "getBufValue (bth_t bth) (bs @ sfx) = BVal v"
      using v len by (simp add: getBufValue_append)
    from unpack_loop_field [OF bth this] show ?thesis
      using len by simp
  qed
  then show ?thesis by blast
qed

lemma unpack_loop_truncated_tail:
  assumes "list_all complete_field flds"
    and "BTH (uint tag) = Some bth" and "length rest < getByteSize (bth_t bth)"
  shows "unpack_loop cfg result (fields_bytes flds @ tag # rest) =
    unpack_loop cfg result (fields_bytes flds)"
  using assms(1)
proof (induction flds arbitrary: result)
  case Nil
  show ?case
    using unpack_loop_truncated [OF assms(2) getBufValue_short [OF assms(3)]]
    by (simp add: fields_bytes_def unpack_loop_Nil)
next
  case (Cons fld flds)
  obtain t bs where fld: "fld = (t, bs)" by (cases fld)
  from Cons.prems fld have "complete_field (t, bs)" and rest: "list_all complete_field flds"
    by simp_all
  from unpack_loop_complete_field [OF this(1)] obtain result' where
    step: "\<And>sfx. unpack_loop cfg result (t # bs @ sfx) = unpack_loop cfg result' sfx"
    by blast
  have "unpack_loop cfg result (fields_bytes (fld # flds) @ tag # rest) =
      unpack_loop cfg result' (fields_bytes flds @ tag # rest)"
    using step [of "fields_bytes flds @ tag # rest"] by (simp add: fields_bytes_def fld)
  also have "\<dots> = unpack_loop cfg result' (fields_bytes flds)"
    by (rule Cons.IH [OF rest])
  also have "\<dots> = unpack_loop cfg result (fields_bytes (fld # flds))"
    using step [of "fields_bytes flds"] by (simp add: fields_bytes_def fld)
  finally show ?case .
qed

section \<open>Facts about the admission of packets\<close>

lemma lower_target: "toLowerCase ''b0:c7:de:3b:29:15'' = ''b0:c7:de:3b:29:15''"
  by (simp add: toLowerCase_def lower_char_def)

lemma fo1: "first_occurrences [x] = [x]"
  by (simp add: first_occurrences_def enumerate_eq_zip)

lemma obj_get_set_same: "obj_get (obj_set d k v) k = v"
  by (induction d) auto

lemma obj_get_set_other: "k' \<noteq> k \<Longrightarrow> obj_get (obj_set d k v) k' = obj_get d k'"
  by (induction d) auto

lemma obj_get_absent: "k \<notin> fst ` set d \<Longrightarrow> obj_get d k = JUndefined"
  by (induction d) auto

lemma indexOf_range: "indexOf xs x = - 1 \<or> 0 \<le> indexOf xs x"
  by (induction xs) (auto simp: Let_def)

lemma indexOf_neg_iff: "(indexOf xs x < 0) = (x \<notin> set xs)"
proof (induction xs)
  case Nil
  show ?case by simp
next
  case (Cons y ys)
  then show ?case using indexOf_range [of ys x] by (auto simp: Let_def)
qed

lemma onReceivedPacket_outcome:
  assumes "obj_get data ''address'' = JStr a"
  shows "fst (onReceivedPacket cfg data) =
    (case processedMacAddresses cfg of
       MacUndefined \<Rightarrow> TypeError
     | MacNull \<Rightarrow> Admitted
     | MacList macs \<Rightarrow> if a \<in> set macs then Admitted else AddressNotAllowed)"
proof (cases "processedMacAddresses cfg")
  case (MacList macs)
  have "(JStr a \<in> set (map JStr macs)) = (a \<in> set macs)" by auto
  with MacList assms show ?thesis
    by (simp add: onReceivedPacket_def indexOf_neg_iff)
qed (simp_all add: onReceivedPacket_def)

lemma BLEScanCallback_decodes:
  assumes "decodes cfg r data"
  shows "fst (BLEScanCallback cfg st SCAN_RESULT r) =
      (if strict_eq (lastPacketId st) (obj_get data ''pid'') then st
       else st\<lparr>lastPacketId := obj_get data ''pid''\<rparr>)"
    and "fst (snd (BLEScanCallback cfg st SCAN_RESULT r)) =
      (if strict_eq (lastPacketId st) (obj_get data ''pid'') then Duplicate
       else (case processedMacAddresses cfg of
               MacUndefined \<Rightarrow> TypeError
             | MacNull \<Rightarrow> Admitted
             | MacList macs \<Rightarrow> if addr r \<in> set macs then Admitted else AddressNotAllowed))"
proof -
  from assms obtain sd d out where sd: "service_data r = Some sd"
    and d: "map_of sd BTHOME_SVC_ID_STR = Some d"
    and u: "unpack cfg d = (Some data, out)"
    and e: "\<not> truthy (obj_get data ''encryption'')"
    by (auto simp: decodes_def split: option.splits prod.splits intro: prod.collapse [symmetric]) (metis prod.collapse)
  let ?data = "obj_set (obj_set data ''rssi'' (JNum (of_int (rssi r)))) ''address'' (JStr (addr r))"
  have a: "obj_get ?data ''address'' = JStr (addr r)" by (rule obj_get_set_same)
  show "fst (BLEScanCallback cfg st SCAN_RESULT r) =
      (if strict_eq (lastPacketId st) (obj_get data ''pid'') then st
       else st\<lparr>lastPacketId := obj_get data ''pid''\<rparr>)"
    by (simp add: BLEScanCallback_def sd d u e Let_def split: prod.splits)
  show "fst (snd (BLEScanCallback cfg st SCAN_RESULT r)) =
      (if strict_eq (lastPacketId st) (obj_get data ''pid'') then Duplicate
       else (case processedMacAddresses cfg of
               MacUndefined \<Rightarrow> TypeError
             | MacNull \<Rightarrow> Admitted
             | MacList macs \<Rightarrow> if addr r \<in> set macs then Admitted else AddressNotAllowed))"
    using onReceivedPacket_outcome [OF a, of cfg]
    by (auto simp add: BLEScanCallback_def sd d u e Let_def split: prod.splits)
qed


lemma init_processed:
  assumes "allowedMacAddresses cfg = MacList [''b0:c7:de:3b:29:15'']" and "ble_enable h"
  shows "processedMacAddresses (fst (init h cfg)) = MacList [''b0:c7:de:3b:29:15'']"
  using assms by (simp add: init_def Let_def lower_target fo1)

lemma onReceivedPacket_outcomes:
  "fst (onReceivedPacket cfg data) = TypeError \<or> fst (onReceivedPacket cfg data) = Admitted
   \<or> fst (onReceivedPacket cfg data) = AddressNotAllowed"
  by (cases "processedMacAddresses cfg") (simp_all add: onReceivedPacket_def)

lemma loop_body_pid:
  assumes "loop_body cfg result buffer = Next result' buffer'" and "pid_is_byte result"
  shows "pid_is_byte result'"
proof -
  from assms(1) obtain k bth v where k: "at_idx buffer 0 = Some k" and bth: "BTH k = Some bth"
    and v: "getBufValue (bth_t bth) (drop 1 buffer) = BVal v"
    and r: "result' = obj_set result (bth_n bth)
      (case bth_f bth of None \<Rightarrow> js_of v | Some fac \<Rightarrow> js_times v fac)"
    by (cases "at_idx buffer 0")
      (auto simp: loop_body_def Let_def split: option.splits bufval.splits)
  show ?thesis
  proof (cases "bth_n bth = ''pid''")
    case False
    then show ?thesis using assms(2) by (simp add: r pid_is_byte_def obj_get_set_other)
  next
    case True
    with bth have ty: "bth_t bth = uint8" and fa: "bth_f bth = None"
      by (auto simp: BTH_def split: if_splits)
    from v ty obtain b rest where "drop 1 buffer = b # rest" and "v = Some (uint b)"
      by (cases "drop 1 buffer")
        (auto simp: getBufValue_def getByteSize_def type_defs getUInt8_def at_idx_def
          split: if_splits)
    then have "obj_get result' ''pid'' = JNum (of_int (uint b))"
      using True fa by (simp add: r obj_get_set_same)
    moreover have "\<And>i :: int. 0 \<le> i \<Longrightarrow> i < 256 \<Longrightarrow> (0::rat) \<le> of_int i \<and> (of_int i :: rat) \<le> 255"
      by simp
    from this [of "uint b"] uint_byte_bounds [of b]
    have "(0::rat) \<le> of_int (uint b) \<and> (of_int (uint b) :: rat) \<le> 255" by blast
    ultimately show ?thesis by (simp add: pid_is_byte_def)
  qed
qed

lemma unpack_loop_pid:
  "pid_is_byte result \<Longrightarrow> pid_is_byte (fst (unpack_loop cfg result buffer))"
proof (induction cfg result buffer rule: unpack_loop.induct)
  case (1 cfg result buffer)
  show ?case
  proof (cases "length buffer > 0")
    case False
    with "1.prems" show ?thesis by (simp add: unpack_loop.simps)
  next
    case True
    show ?thesis
    proof (cases "loop_body cfg result buffer")
      case (Break out)
      with True "1.prems" show ?thesis by (subst unpack_loop.simps) simp
    next
      case (Next r b)
      from loop_body_pid [OF Next "1.prems"] have "pid_is_byte r" .
      from "1.IH" [OF True Next this] show ?thesis
        using True Next by (subst unpack_loop.simps) simp
    qed
  qed
qed

lemma unpack_pid:
  assumes "fst (unpack cfg d) = Some data"
  shows "pid_is_byte data"
proof (cases d)
  case DNotString
  with assms show ?thesis by simp
next
  case (DString buffer)
  show ?thesis
  proof (cases buffer)
    case Nil
    with assms DString show ?thesis by (simp add: unpack.simps)
  next
    case (Cons h body)
    have init: "pid_is_byte [(''encryption'', JBool e), (''BTHome_version'', JNum 2)]" for e
      by (simp add: pid_is_byte_def)
    from unpack_loop_pid [OF init [of False], of cfg body] assms DString Cons init [of True]
    show ?thesis
      by (auto simp: unpack_Cons split: if_splits prod.splits)
  qed
qed

lemma decodes_pid_not_sentinel:
  assumes "decodes cfg r data"
  shows "\<not> strict_eq (lastPacketId initial_state) (obj_get data ''pid'')"
proof -
  from assms have "pid_is_byte data"
    by (auto simp: decodes_def split: option.splits intro: unpack_pid)
  then show ?thesis
    by (auto simp: pid_is_byte_def strict_eq_def initial_state_def split: jsval.splits)
qed

lemma run_Cons:
  "run cfg st (r # rs) =
    (fst (run cfg (fst (BLEScanCallback cfg st SCAN_RESULT r)) rs),
     fst (snd (BLEScanCallback cfg st SCAN_RESULT r))
       # snd (run cfg (fst (BLEScanCallback cfg st SCAN_RESULT r)) rs))"
  by (simp split: prod.splits)

lemma run_append:
  "run cfg st (rs @ rs') =
    (fst (run cfg (fst (run cfg st rs)) rs'),
     snd (run cfg st rs) @ snd (run cfg (fst (run cfg st rs)) rs'))"
  by (induction rs arbitrary: st) (simp_all add: run_Cons del: run.simps(2))

lemma address_allowed_outcome:
  assumes "address_allowed cfg a"
  shows "(case processedMacAddresses cfg of
            MacUndefined \<Rightarrow> TypeError
          | MacNull \<Rightarrow> Admitted
          | MacList macs \<Rightarrow> if a \<in> set macs then Admitted else AddressNotAllowed) = Admitted"
  using assms by (cases "processedMacAddresses cfg") (simp_all add: address_allowed_def)

lemma address_outcome_allowed:
  assumes "address_allowed cfg a0"
  shows "(case processedMacAddresses cfg of
            MacUndefined \<Rightarrow> TypeError
          | MacNull \<Rightarrow> Admitted
          | MacList macs \<Rightarrow> if a \<in> set macs then Admitted else AddressNotAllowed) =
    (if address_allowed cfg a then Admitted else AddressNotAllowed)"
  using assms by (cases "processedMacAddresses cfg") (simp_all add: address_allowed_def)

lemma decodes_without_pid_decodes:
  assumes "decodes_without_pid cfg r"
  obtains data where "decodes cfg r data" and "obj_get data ''pid'' = JUndefined"
  using assms
  by (auto simp: decodes_without_pid_def decodes_def obj_get_absent split: option.splits)

lemma run_without_pid:
  assumes "list_all (decodes_without_pid cfg) rs" and "lastPacketId st = JUndefined"
  shows "run cfg st rs = (st, replicate (length rs) Duplicate)"
  using assms(1)
proof (induction rs)
  case Nil
  show ?case by simp
next
  case (Cons r rs)
  then have "decodes_without_pid cfg r" and rest: "list_all (decodes_without_pid cfg) rs"
    by simp_all
  then obtain data where dec: "decodes cfg r data" and pid: "obj_get data ''pid'' = JUndefined"
    by (auto elim: decodes_without_pid_decodes)
  have dup: "strict_eq (lastPacketId st) (obj_get data ''pid'')"
    using assms(2) pid by (simp add: strict_eq_def)
  from BLEScanCallback_decodes [OF dec, of st] dup
  have "fst (BLEScanCallback cfg st SCAN_RESULT r) = st"
    and "fst (snd (BLEScanCallback cfg st SCAN_RESULT r)) = Duplicate"
    by simp_all
  with Cons.IH [OF rest] show ?case
    by (simp add: run_Cons del: run.simps(2))
qed

section \<open>The integer readers\<close>

text \<open>
  C7. For a buffer that starts with one, two or three bytes, the unsigned read is the
  little-endian value of these bytes, byte 0 least significant, and is not negative. The
  signed read is the unsigned value when bit 7 of the top byte is clear and the unsigned
  value less \<open>2 ^ (8 * W)\<close> when it is set; it lies between 0 and \<open>2 ^ (8 * W - 1) - 1\<close> in
  the first case and between \<open>- 2 ^ (8 * W - 1)\<close> and -1 in the second.
\<close>

theorem readers_little_endian_twos_complement:
  fixes b0 b1 b2 :: byte
  shows
    "getUInt8 (b0 # rest) = Some (uint b0)
     \<and> getUInt16LE (b0 # b1 # rest) = uint b0 + 256 * uint b1
     \<and> getUInt24LE (b0 # b1 # b2 # rest) = uint b0 + 256 * uint b1 + 65536 * uint b2
     \<and> 0 \<le> uint b0 \<and> 0 \<le> getUInt16LE (b0 # b1 # rest) \<and> 0 \<le> getUInt24LE (b0 # b1 # b2 # rest)
     \<and> getInt8 (b0 # rest) = Some (if bit b0 7 then uint b0 - 2 ^ 8 else uint b0)
     \<and> getInt16LE (b0 # b1 # rest) =
         Some (if bit b1 7 then getUInt16LE (b0 # b1 # rest) - 2 ^ 16
               else getUInt16LE (b0 # b1 # rest))
     \<and> getInt24LE (b0 # b1 # b2 # rest) =
         Some (if bit b2 7 then getUInt24LE (b0 # b1 # b2 # rest) - 2 ^ 24
               else getUInt24LE (b0 # b1 # b2 # rest))
     \<and> (\<exists>v. getInt8 (b0 # rest) = Some v
            \<and> (if bit b0 7 then - (2 ^ 7) \<le> v \<and> v \<le> - 1 else 0 \<le> v \<and> v \<le> 2 ^ 7 - 1))
     \<and> (\<exists>v. getInt16LE (b0 # b1 # rest) = Some v
            \<and> (if bit b1 7 then - (2 ^ 15) \<le> v \<and> v \<le> - 1 else 0 \<le> v \<and> v \<le> 2 ^ 15 - 1))
     \<and> (\<exists>v. getInt24LE (b0 # b1 # b2 # rest) = Some v
            \<and> (if bit b2 7 then - (2 ^ 23) \<le> v \<and> v \<le> - 1 else 0 \<le> v \<and> v \<le> 2 ^ 23 - 1))"
proof -
  let ?a = "uint b0" and ?b = "uint b1" and ?c = "uint b2"
  have a: "0 \<le> ?a" "?a < 256" and b: "0 \<le> ?b" "?b < 256" and c: "0 \<le> ?c" "?c < 256"
    using uint_byte_bounds by auto
  have u8: "getUInt8 (b0 # rest) = Some ?a"
    by (simp add: getUInt8_def at_idx_def)
  have u16: "getUInt16LE (b0 # b1 # rest) = ?a + 256 * ?b"
    by (rule getUInt16LE_eq)
  have u24: "getUInt24LE (b0 # b1 # b2 # rest) = ?a + 256 * ?b + 65536 * ?c"
    by (rule getUInt24LE_eq)
  have r16: "0 \<le> ?a + 256 * ?b" "?a + 256 * ?b < 65536"
    using a b by auto
  have r24: "0 \<le> ?a + 256 * ?b + 65536 * ?c" "?a + 256 * ?b + 65536 * ?c < 16777216"
    using a b c by auto
  have "\<And>x y :: int. 0 \<le> x \<Longrightarrow> x < 256 \<Longrightarrow> (32768 \<le> x + 256 * y) = (128 \<le> y)"
    by (rule iffI) linarith+
  from this [OF a] have t16: "(32768 \<le> ?a + 256 * ?b) = (128 \<le> ?b)" .
  have "\<And>x y :: int. 0 \<le> x \<Longrightarrow> x < 65536 \<Longrightarrow> (8388608 \<le> x + 65536 * y) = (128 \<le> y)"
    by (rule iffI) linarith+
  from this [OF r16] have t24: "(8388608 \<le> ?a + 256 * ?b + 65536 * ?c) = (128 \<le> ?c)" .
  have i8: "getInt8 (b0 # rest) = Some (if bit b0 7 then ?a - 2 ^ 8 else ?a)"
    by (simp add: getInt8_def u8 utoi_8 [OF a] top_bit_byte del: utoi.simps)
  have i16: "getInt16LE (b0 # b1 # rest) =
      Some (if bit b1 7 then (?a + 256 * ?b) - 2 ^ 16 else ?a + 256 * ?b)"
    using t16 by (simp add: getInt16LE_def u16 utoi_16 [OF r16] top_bit_byte del: utoi.simps)
  have i24: "getInt24LE (b0 # b1 # b2 # rest) =
      Some (if bit b2 7 then (?a + 256 * ?b + 65536 * ?c) - 2 ^ 24 else ?a + 256 * ?b + 65536 * ?c)"
    using t24 by (simp add: getInt24LE_def u24 utoi_24 [OF r24] top_bit_byte del: utoi.simps)
  have b8: "\<exists>v. getInt8 (b0 # rest) = Some v
      \<and> (if bit b0 7 then - (2 ^ 7) \<le> v \<and> v \<le> - 1 else 0 \<le> v \<and> v \<le> 2 ^ 7 - 1)"
  proof -
    have "\<And>x :: int. 0 \<le> x \<Longrightarrow> x < 256 \<Longrightarrow>
        (if 128 \<le> x then - 128 \<le> x - 256 \<and> x - 256 \<le> - 1 else 0 \<le> x \<and> x \<le> 127)"
      by auto
    from this [OF a] show ?thesis by (simp add: i8 top_bit_byte)
  qed
  have b16: "\<exists>v. getInt16LE (b0 # b1 # rest) = Some v
      \<and> (if bit b1 7 then - (2 ^ 15) \<le> v \<and> v \<le> - 1 else 0 \<le> v \<and> v \<le> 2 ^ 15 - 1)"
  proof -
    have "\<And>x y :: int. 0 \<le> x \<Longrightarrow> x < 256 \<Longrightarrow> 0 \<le> y \<Longrightarrow> y < 256 \<Longrightarrow>
        (if 128 \<le> y then - 32768 \<le> x + 256 * y - 65536 \<and> x + 256 * y - 65536 \<le> - 1
         else 0 \<le> x + 256 * y \<and> x + 256 * y \<le> 32767)"
      by auto
    from this [OF a b] show ?thesis by (simp add: i16 top_bit_byte)
  qed
  have b24: "\<exists>v. getInt24LE (b0 # b1 # b2 # rest) = Some v
      \<and> (if bit b2 7 then - (2 ^ 23) \<le> v \<and> v \<le> - 1 else 0 \<le> v \<and> v \<le> 2 ^ 23 - 1)"
  proof -
    have "\<And>x y :: int. 0 \<le> x \<Longrightarrow> x < 65536 \<Longrightarrow> 0 \<le> y \<Longrightarrow> y < 256 \<Longrightarrow>
        (if 128 \<le> y then - 8388608 \<le> x + 65536 * y - 16777216 \<and> x + 65536 * y - 16777216 \<le> - 1
         else 0 \<le> x + 65536 * y \<and> x + 65536 * y \<le> 8388607)"
      by auto
    from this [OF r16 c] show ?thesis by (simp add: i24 top_bit_byte)
  qed
  show ?thesis
    using u8 u16 u24 a(1) r16(1) r24(1) i8 i16 i24 b8 b16 b24 by (simp only: simp_thms)
qed

section \<open>The decoder\<close>

text \<open>
  C3. The bytes 40 00 05 05 6d 00 00 decode to a record of four properties in this
  order: \<open>encryption\<close> false, \<open>BTHome_version\<close> 2, \<open>pid\<close> 5 and \<open>illuminance\<close> 1.09; nothing
  is logged. The record is therefore not the record of \<open>pid\<close> and \<open>illuminance\<close> alone.
\<close>

theorem unpack_end_to_end:
  "unpack cfg (DString [0x40, 0x00, 0x05, 0x05, 0x6d, 0x00, 0x00]) =
    (Some [(''encryption'', JBool False), (''BTHome_version'', JNum 2), (''pid'', JNum 5),
           (''illuminance'', JNum (109 / 100))], [])"
  by (simp add: unpack_Cons unpack_loop.simps loop_body_def at_idx_def band_def sar_def shl_def
      bor_def BTH_def getBufValue_def getByteSize_def type_defs getUInt8_def getUInt24LE_def
      Let_def)

theorem unpack_end_to_end_not_two_fields:
  "fst (unpack CONFIG (DString [0x40, 0x00, 0x05, 0x05, 0x6d, 0x00, 0x00])) \<noteq>
    Some [(''pid'', JNum 5), (''illuminance'', JNum (109 / 100))]"
  by (simp add: unpack_Cons unpack_loop.simps loop_body_def at_idx_def band_def sar_def shl_def
      bor_def BTH_def getBufValue_def getByteSize_def type_defs getUInt8_def getUInt24LE_def
      Let_def)

text \<open>
  C4. A payload of a header of version 2 without the encryption bit, the tag 00 with
  the value 05, and then a tag that is not in \<open>BTH\<close>, followed by anything, decodes to
  the record of \<open>encryption\<close> false, \<open>BTHome_version\<close> 2 and \<open>pid\<close> 5. The line
  \<open>BTH: "unknown type"\<close> is logged when \<open>CONFIG.debug\<close> is set, and nothing otherwise.
\<close>

theorem unpack_unknown_tag:
  assumes "sar (Some (uint h)) 5 = 2" and "band (Some (uint h)) (Some 1) = 0"
    and "BTH (uint tag) = None"
  shows "unpack cfg (DString (h # 0x00 # 0x05 # tag # rest)) =
    (Some [(''encryption'', JBool False), (''BTHome_version'', JNum 2), (''pid'', JNum 5)],
     if debug cfg then [ConsoleLog ''BTH:'' (MsgStr ''unknown type'')] else [])"
proof -
  have v: "getBufValue uint8 (0x05 # tag # rest) = BVal (Some 5)"
    by (simp add: getBufValue_def getByteSize_def getUInt8_def at_idx_Cons0)
  have "unpack_loop cfg [(''encryption'', JBool False), (''BTHome_version'', JNum 2)]
      (0x00 # 0x05 # tag # rest) =
    unpack_loop cfg [(''encryption'', JBool False), (''BTHome_version'', JNum 2), (''pid'', JNum 5)]
      (tag # rest)"
    using v
    by (subst unpack_loop_field
        [where bth = "\<lparr>bth_n = ''pid'', bth_t = uint8, bth_f = None, bth_u = None\<rparr>"
          and v = "Some 5"])
      (simp_all add: BTH_0 getByteSize_def)
  then show ?thesis
    using assms by (simp add: unpack_Cons unpack_loop_unknown logger_def)
qed

theorem unpack_unknown_tag_witness:
  "sar (Some (uint (0x40 :: byte))) 5 = 2 \<and> band (Some (uint (0x40 :: byte))) (Some 1) = 0
   \<and> BTH (uint (0xff :: byte)) = None
   \<and> unpack CONFIG (DString [0x40, 0x00, 0x05, 0xff]) =
      (Some [(''encryption'', JBool False), (''BTHome_version'', JNum 2), (''pid'', JNum 5)],
       [ConsoleLog ''BTH:'' (MsgStr ''unknown type'')])"
  using unpack_unknown_tag [of "0x40" "0xff" CONFIG "[]"]
  by (simp add: sar_def band_def BTH_def CONFIG_def)

theorem unpack_unknown_tag_counterexample:
  "fst (unpack CONFIG (DString [0x40, 0x00, 0x05, 0xff])) \<noteq> Some [(''pid'', JNum 5)]
   \<and> snd (unpack (CONFIG\<lparr>debug := False\<rparr>) (DString [0x40, 0x00, 0x05, 0xff])) = []"
  by (simp add: unpack_Cons unpack_loop.simps loop_body_def at_idx_def band_def sar_def
      BTH_def getBufValue_def getByteSize_def type_defs getUInt8_def Let_def logger_def
      CONFIG_def)

text \<open>
  C6. For a non-empty buffer: when the header byte shifted right by 5 is not 2, the
  result is \<open>null\<close>; when it is 2 and bit 0 of the header is set, the result is the
  record of \<open>encryption\<close> true and \<open>BTHome_version\<close> 2 and nothing else. Nothing is logged
  in either case.
\<close>

theorem unpack_header_refusals:
  assumes "buffer \<noteq> []"
  shows "(sar (at_idx buffer 0) 5 \<noteq> 2 \<longrightarrow> unpack cfg (DString buffer) = (None, []))
    \<and> (sar (at_idx buffer 0) 5 = 2 \<and> band (at_idx buffer 0) (Some 1) \<noteq> 0 \<longrightarrow>
         unpack cfg (DString buffer) =
           (Some [(''encryption'', JBool True), (''BTHome_version'', JNum 2)], []))"
proof -
  from assms obtain h body where "buffer = h # body" by (cases buffer) auto
  then show ?thesis by (simp add: unpack_Cons at_idx_Cons0)
qed

theorem unpack_header_refusals_witness:
  "unpack CONFIG (DString [0x61, 0x00, 0x05]) = (None, [])
   \<and> unpack CONFIG (DString [0x41, 0x00, 0x05]) =
       (Some [(''encryption'', JBool True), (''BTHome_version'', JNum 2)], [])"
  using unpack_header_refusals [of "[0x61, 0x00, 0x05]" CONFIG]
    unpack_header_refusals [of "[0x41, 0x00, 0x05]" CONFIG]
  by (simp add: at_idx_def sar_def band_def)

text \<open>
  C5. Where a tag of \<open>BTH\<close> is followed by fewer bytes than its type has,
  \<open>getBufValue\<close> yields \<open>null\<close>, not a number; the loop entered at this tag returns
  the record it was entered with and logs nothing; and after any sequence of complete
  fields the decoder returns what it returns for the payload that ends before the tag.
\<close>

theorem unpack_truncated_field:
  assumes "list_all complete_field flds"
    and "BTH (uint tag) = Some bth" and "length rest < getByteSize (bth_t bth)"
  shows "getBufValue (bth_t bth) rest = BNull
    \<and> unpack_loop cfg result (tag # rest) = (result, [])
    \<and> unpack_loop cfg result (fields_bytes flds @ tag # rest) =
        unpack_loop cfg result (fields_bytes flds)
    \<and> unpack cfg (DString (h # fields_bytes flds @ tag # rest)) =
        unpack cfg (DString (h # fields_bytes flds))"
proof -
  have null: "getBufValue (bth_t bth) rest = BNull"
    using assms(3) by (rule getBufValue_short)
  have here: "unpack_loop cfg result (tag # rest) = (result, [])"
    using assms(2) null by (rule unpack_loop_truncated)
  have tail: "unpack_loop cfg r (fields_bytes flds @ tag # rest) =
      unpack_loop cfg r (fields_bytes flds)" for r
    using assms by (rule unpack_loop_truncated_tail)
  have "unpack cfg (DString (h # fields_bytes flds @ tag # rest)) =
      unpack cfg (DString (h # fields_bytes flds))"
    by (simp add: unpack_Cons tail)
  with null here tail show ?thesis by simp
qed

theorem unpack_truncated_field_witness:
  "list_all complete_field [(0x00, [0x05])]
   \<and> BTH (uint (0x03 :: byte)) =
       Some \<lparr>bth_n = ''humidity'', bth_t = uint16, bth_f = Some (1 / 100), bth_u = Some ''%''\<rparr>
   \<and> length [0x01 :: byte] < getByteSize uint16
   \<and> getBufValue uint16 [0x01] = BNull
   \<and> unpack CONFIG (DString [0x40, 0x00, 0x05, 0x03, 0x01]) =
       unpack CONFIG (DString [0x40, 0x00, 0x05])"
  using unpack_truncated_field [of "[(0x00, [0x05])]" "0x03"
      "\<lparr>bth_n = ''humidity'', bth_t = uint16, bth_f = Some (1 / 100), bth_u = Some ''%''\<rparr>"
      "[0x01]" CONFIG "[]" "0x40"]
  by (simp add: complete_field_def BTH_def getByteSize_def type_defs fields_bytes_def)

text \<open>
  C10. A pass through the body of the loop that does not leave the loop continues with
  a strictly shorter buffer, and the body is entered at most as many times as the buffer
  that the loop starts with has bytes. (\<open>unpack_loop\<close> and \<open>unpack\<close> are total functions:
  the length of the buffer is the measure of their termination proofs.)
\<close>

theorem unpack_loop_bounded:
  "(loop_body cfg result buffer = Next result' buffer' \<longrightarrow> length buffer' < length buffer)
   \<and> unpack_iterations cfg result buffer \<le> length buffer"
proof
  show "loop_body cfg result buffer = Next result' buffer' \<longrightarrow> length buffer' < length buffer"
    by (simp add: loop_body_shorter)
  show "unpack_iterations cfg result buffer \<le> length buffer"
  proof (induction cfg result buffer rule: unpack_iterations.induct)
    case (1 cfg result buffer)
    show ?case
    proof (cases "length buffer > 0")
      case False
      then show ?thesis by (simp add: unpack_iterations.simps)
    next
      case True
      show ?thesis
      proof (cases "loop_body cfg result buffer")
        case (Break out)
        with True show ?thesis by (subst unpack_iterations.simps) (cases buffer, simp_all)
      next
        case (Next r b)
        from "1.IH" [OF True Next] have "unpack_iterations cfg r b \<le> length b" .
        moreover from loop_body_shorter [OF Next] have "length b < length buffer" .
        ultimately show ?thesis
          using True Next by (subst unpack_iterations.simps) simp
      qed
    qed
  qed
qed


theorem unpack_loop_bounded_witness:
  "loop_body CONFIG [] [0x00, 0x05, 0xff] = Next [(''pid'', JNum 5)] [0xff]
   \<and> length [0xff :: byte] < length [0x00, 0x05, 0xff :: byte]
   \<and> unpack_iterations CONFIG [] [0x00, 0x05, 0xff] \<le> 3"
  using unpack_loop_bounded [of CONFIG "[]" "[0x00, 0x05, 0xff]" "[(''pid'', JNum 5)]" "[0xff]"]
  by (simp add: loop_body_def at_idx_def BTH_def getBufValue_def getByteSize_def type_defs
      getUInt8_def)

section \<open>The admission of packets\<close>

text \<open>
  C1. \<open>init\<close> turns the allowed addresses to lower case; \<open>onReceivedPacket\<close> compares the
  address of the packet, as it was received, with them. With the allowed addresses
  \<open>b0:c7:de:3b:29:15\<close> and Bluetooth enabled, a packet is admitted by \<open>onReceivedPacket\<close>
  when its address is exactly \<open>b0:c7:de:3b:29:15\<close>, and rejected as outside of the
  allowed addresses otherwise; in particular it is rejected when its address in lower
  case is not \<open>b0:c7:de:3b:29:15\<close>, and \<open>BLEScanCallback\<close> admits no scan result with
  another address. A scan result with the address \<open>B0:C7:DE:3B:29:15\<close> is rejected.
\<close>

theorem allowed_address_exact:
  assumes "allowedMacAddresses cfg = MacList [''b0:c7:de:3b:29:15'']" and "ble_enable h"
    and "obj_get data ''address'' = JStr a"
  shows "fst (onReceivedPacket (fst (init h cfg)) data) =
      (if a = ''b0:c7:de:3b:29:15'' then Admitted else AddressNotAllowed)
    \<and> (toLowerCase a \<noteq> ''b0:c7:de:3b:29:15'' \<longrightarrow>
         fst (onReceivedPacket (fst (init h cfg)) data) = AddressNotAllowed)
    \<and> (fst (snd (BLEScanCallback (fst (init h cfg)) st ev r)) = Admitted \<longrightarrow>
         addr r = ''b0:c7:de:3b:29:15'')"
proof -
  let ?cfg = "fst (init h cfg)"
  have p: "processedMacAddresses ?cfg = MacList [''b0:c7:de:3b:29:15'']"
    using assms(1,2) by (rule init_processed)
  have one: "fst (onReceivedPacket ?cfg data) =
      (if a = ''b0:c7:de:3b:29:15'' then Admitted else AddressNotAllowed)"
    using onReceivedPacket_outcome [OF assms(3), of ?cfg] by (simp add: p)
  have two: "toLowerCase a \<noteq> ''b0:c7:de:3b:29:15'' \<longrightarrow>
      fst (onReceivedPacket ?cfg data) = AddressNotAllowed"
    using one lower_target by auto
  have three: "fst (snd (BLEScanCallback ?cfg st ev r)) = Admitted \<longrightarrow>
      addr r = ''b0:c7:de:3b:29:15''"
  proof
    assume adm: "fst (snd (BLEScanCallback ?cfg st ev r)) = Admitted"
    let ?d = "\<lambda>data. obj_set (obj_set data ''rssi'' (JNum (of_int (rssi r)))) ''address'' (JStr (addr r))"
    have "addr r = ''b0:c7:de:3b:29:15''"
      if "onReceivedPacket ?cfg (?d data') = (Admitted, out)" for data' out
    proof -
      have "fst (onReceivedPacket ?cfg (?d data')) =
          (if addr r = ''b0:c7:de:3b:29:15'' then Admitted else AddressNotAllowed)"
        using onReceivedPacket_outcome [of "?d data'" "addr r" ?cfg]
        by (simp add: p obj_get_set_same)
      with that show ?thesis by (simp split: if_splits)
    qed
    with adm show "addr r = ''b0:c7:de:3b:29:15''"
      by (auto simp: BLEScanCallback_def Let_def split: if_splits option.splits prod.splits)
  qed
  from one two three show ?thesis by simp
qed

theorem allowed_address_exact_witness:
  "fst (onReceivedPacket (fst (init \<lparr>ble_enable = True, scanner_isRunning = False, scanner_Start = True\<rparr> CONFIG))
      [(''address'', JStr ''b0:c7:de:3b:29:15'')]) = Admitted
   \<and> fst (onReceivedPacket (fst (init \<lparr>ble_enable = True, scanner_isRunning = False, scanner_Start = True\<rparr> CONFIG))
      [(''address'', JStr ''aa:bc:12:34:56:78'')]) = AddressNotAllowed"
  using allowed_address_exact [of CONFIG "\<lparr>ble_enable = True, scanner_isRunning = False, scanner_Start = True\<rparr>"
      "[(''address'', JStr ''b0:c7:de:3b:29:15'')]" "''b0:c7:de:3b:29:15''"]
    allowed_address_exact [of CONFIG "\<lparr>ble_enable = True, scanner_isRunning = False, scanner_Start = True\<rparr>"
      "[(''address'', JStr ''aa:bc:12:34:56:78'')]" "''aa:bc:12:34:56:78''"]
  by (simp add: CONFIG_def)

theorem upper_case_address_rejected:
  "fst (snd (BLEScanCallback
      (fst (init \<lparr>ble_enable = True, scanner_isRunning = False, scanner_Start = True\<rparr> CONFIG))
      initial_state SCAN_RESULT
      \<lparr>service_data = Some [(''fcd2'', DString [0x40, 0x00, 0x05])], rssi = - 53,
        addr = ''B0:C7:DE:3B:29:15''\<rparr>)) = AddressNotAllowed"
  by (simp add: init_def CONFIG_def Let_def lower_target fo1 BLEScanCallback_def
      BTHOME_SVC_ID_STR_def initial_state_def unpack_Cons unpack_loop.simps loop_body_def
      at_idx_def band_def sar_def BTH_def getBufValue_def getByteSize_def type_defs getUInt8_def
      strict_eq_def onReceivedPacket_def logger_def)


text \<open>
  C2. \<open>lastPacketId\<close> is unchanged when the call ends at one of the two early returns, at
  the return for undecodable data or at the return for a duplicate. In every other case
  the scan result decodes to a record whose \<open>pid\<close> differs from \<open>lastPacketId\<close>, and
  \<open>lastPacketId\<close> is set to this \<open>pid\<close> before \<open>onReceivedPacket\<close> looks at the address:
  for the admitted packet and for the one rejected as outside of the allowed addresses
  alike.
\<close>

theorem lastPacketId_set_before_address_check:
  assumes "BLEScanCallback cfg st ev r = (st', oc, out)"
  shows "(oc = Ignored \<or> oc = Undecodable \<or> oc = Duplicate \<longrightarrow> st' = st)
    \<and> (oc = Admitted \<or> oc = AddressNotAllowed \<or> oc = TypeError \<longrightarrow>
         (\<exists>data. decodes cfg r data \<and> \<not> strict_eq (lastPacketId st) (obj_get data ''pid'')
            \<and> st' = st\<lparr>lastPacketId := obj_get data ''pid''\<rparr>))"
proof (cases "\<exists>data. decodes cfg r data \<and> ev = SCAN_RESULT")
  case True
  then obtain data where dec: "decodes cfg r data" and ev: "ev = SCAN_RESULT" by blast
  let ?dup = "strict_eq (lastPacketId st) (obj_get data ''pid'')"
  from BLEScanCallback_decodes [OF dec, of st] assms ev
  have st': "st' = (if ?dup then st else st\<lparr>lastPacketId := obj_get data ''pid''\<rparr>)"
    and oc: "oc = (if ?dup then Duplicate
       else (case processedMacAddresses cfg of
               MacUndefined \<Rightarrow> TypeError
             | MacNull \<Rightarrow> Admitted
             | MacList macs \<Rightarrow> if addr r \<in> set macs then Admitted else AddressNotAllowed))"
    by simp_all
  show ?thesis
  proof (cases ?dup)
    case True
    with st' oc show ?thesis by simp
  next
    case False
    with oc have "oc = Admitted \<or> oc = AddressNotAllowed \<or> oc = TypeError"
      by (cases "processedMacAddresses cfg") auto
    moreover from False st' have "st' = st\<lparr>lastPacketId := obj_get data ''pid''\<rparr>" by simp
    ultimately show ?thesis using dec False by auto
  qed
next
  case False
  have "st' = st \<and> (oc = Ignored \<or> oc = Undecodable)"
  proof (cases "ev = SCAN_RESULT")
    case n: False
    with assms show ?thesis by (simp add: BLEScanCallback_def)
  next
    case ev: True
    with False have nd: "\<not> decodes cfg r data" for data by blast
    show ?thesis
    proof (cases "service_data r")
      case None
      with assms ev show ?thesis by (simp add: BLEScanCallback_def)
    next
      case (Some sd)
      show ?thesis
      proof (cases "map_of sd BTHOME_SVC_ID_STR")
        case None
        with assms ev Some show ?thesis by (simp add: BLEScanCallback_def)
      next
        case d: (Some d)
        obtain res out0 where u: "unpack cfg d = (res, out0)" by (cases "unpack cfg d")
        show ?thesis
        proof (cases res)
          case None
          with assms ev Some d u show ?thesis by (simp add: BLEScanCallback_def)
        next
          case s: (Some data)
          with nd [of data] Some d u have "truthy (obj_get data ''encryption'')"
            by (simp add: decodes_def)
          with assms ev Some d u s show ?thesis by (simp add: BLEScanCallback_def)
        qed
      qed
    qed
  qed
  then show ?thesis by auto
qed

theorem lastPacketId_set_before_address_check_witness:
  "fst (snd (BLEScanCallback (fst (init \<lparr>ble_enable = True, scanner_isRunning = False, scanner_Start = True\<rparr> CONFIG))
      \<lparr>lastPacketId = JNum 5\<rparr> SCAN_RESULT
      \<lparr>service_data = Some [(''fcd2'', DString [0x40, 0x00, 0x05])], rssi = - 53,
        addr = ''b0:c7:de:3b:29:15''\<rparr>)) = Duplicate
   \<and> fst (BLEScanCallback (fst (init \<lparr>ble_enable = True, scanner_isRunning = False, scanner_Start = True\<rparr> CONFIG))
      \<lparr>lastPacketId = JNum 5\<rparr> SCAN_RESULT
      \<lparr>service_data = Some [(''fcd2'', DString [0x40, 0x00, 0x05])], rssi = - 53,
        addr = ''b0:c7:de:3b:29:15''\<rparr>) = \<lparr>lastPacketId = JNum 5\<rparr>"
  using lastPacketId_set_before_address_check
    [of "fst (init \<lparr>ble_enable = True, scanner_isRunning = False, scanner_Start = True\<rparr> CONFIG)" "\<lparr>lastPacketId = JNum 5\<rparr>" SCAN_RESULT
      "\<lparr>service_data = Some [(''fcd2'', DString [0x40, 0x00, 0x05])], rssi = - 53,
        addr = ''b0:c7:de:3b:29:15''\<rparr>"
      "fst (BLEScanCallback (fst (init \<lparr>ble_enable = True, scanner_isRunning = False, scanner_Start = True\<rparr> CONFIG))
        \<lparr>lastPacketId = JNum 5\<rparr> SCAN_RESULT
        \<lparr>service_data = Some [(''fcd2'', DString [0x40, 0x00, 0x05])], rssi = - 53,
          addr = ''b0:c7:de:3b:29:15''\<rparr>)"
      "fst (snd (BLEScanCallback (fst (init \<lparr>ble_enable = True, scanner_isRunning = False, scanner_Start = True\<rparr> CONFIG))
        \<lparr>lastPacketId = JNum 5\<rparr> SCAN_RESULT
        \<lparr>service_data = Some [(''fcd2'', DString [0x40, 0x00, 0x05])], rssi = - 53,
          addr = ''b0:c7:de:3b:29:15''\<rparr>))"
      "snd (snd (BLEScanCallback (fst (init \<lparr>ble_enable = True, scanner_isRunning = False, scanner_Start = True\<rparr> CONFIG))
        \<lparr>lastPacketId = JNum 5\<rparr> SCAN_RESULT
        \<lparr>service_data = Some [(''fcd2'', DString [0x40, 0x00, 0x05])], rssi = - 53,
          addr = ''b0:c7:de:3b:29:15''\<rparr>))"]
  by (simp add: init_def CONFIG_def Let_def lower_target fo1 BLEScanCallback_def
      BTHOME_SVC_ID_STR_def unpack_Cons unpack_loop.simps loop_body_def
      at_idx_def band_def sar_def BTH_def getBufValue_def getByteSize_def type_defs getUInt8_def
      strict_eq_def)

theorem lastPacketId_set_for_rejected_address:
  "fst (snd (BLEScanCallback (fst (init \<lparr>ble_enable = True, scanner_isRunning = False, scanner_Start = True\<rparr> CONFIG))
      initial_state SCAN_RESULT
      \<lparr>service_data = Some [(''fcd2'', DString [0x40, 0x00, 0x05])], rssi = - 60,
        addr = ''aa:bc:12:34:56:78''\<rparr>)) = AddressNotAllowed
   \<and> lastPacketId (fst (BLEScanCallback (fst (init \<lparr>ble_enable = True, scanner_isRunning = False, scanner_Start = True\<rparr> CONFIG))
      initial_state SCAN_RESULT
      \<lparr>service_data = Some [(''fcd2'', DString [0x40, 0x00, 0x05])], rssi = - 60,
        addr = ''aa:bc:12:34:56:78''\<rparr>)) = JNum 5
   \<and> lastPacketId initial_state = JNum 256"
  by (simp add: init_def CONFIG_def Let_def lower_target fo1 BLEScanCallback_def
      BTHOME_SVC_ID_STR_def initial_state_def unpack_Cons unpack_loop.simps loop_body_def
      at_idx_def band_def sar_def BTH_def getBufValue_def getByteSize_def type_defs getUInt8_def
      strict_eq_def onReceivedPacket_def logger_def)

text \<open>
  C8. Three scan results arrive one after the other, starting with \<open>lastPacketId\<close> at
  0x100. Each decodes to a record that is not encrypted; the first two carry the same
  \<open>pid\<close>, the third a different one; the addresses of the first and the third are allowed
  (or all addresses are). Then the first is admitted, the second is rejected as a
  duplicate, and the third is admitted.
\<close>

theorem duplicate_pid_rejected:
  assumes "decodes cfg r1 data1" and "decodes cfg r2 data2" and "decodes cfg r3 data3"
    and "obj_get data1 ''pid'' = JNum p" and "obj_get data2 ''pid'' = JNum p"
    and "obj_get data3 ''pid'' = JNum q" and "q \<noteq> p"
    and "address_allowed cfg (addr r1)" and "address_allowed cfg (addr r3)"
  shows "run cfg initial_state [r1, r2, r3] = (\<lparr>lastPacketId = JNum q\<rparr>, [Admitted, Duplicate, Admitted])"
proof -
  let ?st1 = "\<lparr>lastPacketId = JNum p\<rparr>" and ?st3 = "\<lparr>lastPacketId = JNum q\<rparr>"
  have n1: "\<not> strict_eq (lastPacketId initial_state) (obj_get data1 ''pid'')"
    using assms(1) by (rule decodes_pid_not_sentinel)
  from BLEScanCallback_decodes [OF assms(1), of initial_state] n1 assms(4)
    address_allowed_outcome [OF assms(8)]
  have s1: "fst (BLEScanCallback cfg initial_state SCAN_RESULT r1) = ?st1"
    and o1: "fst (snd (BLEScanCallback cfg initial_state SCAN_RESULT r1)) = Admitted"
    by (simp_all add: initial_state_def)
  from BLEScanCallback_decodes [OF assms(2), of ?st1] assms(5)
  have s2: "fst (BLEScanCallback cfg ?st1 SCAN_RESULT r2) = ?st1"
    and o2: "fst (snd (BLEScanCallback cfg ?st1 SCAN_RESULT r2)) = Duplicate"
    by (simp_all add: strict_eq_def)
  from BLEScanCallback_decodes [OF assms(3), of ?st1] assms(6,7)
    address_allowed_outcome [OF assms(9)]
  have s3: "fst (BLEScanCallback cfg ?st1 SCAN_RESULT r3) = ?st3"
    and o3: "fst (snd (BLEScanCallback cfg ?st1 SCAN_RESULT r3)) = Admitted"
    by (simp_all add: strict_eq_def)
  show ?thesis
    by (simp add: run_Cons s1 o1 s2 o2 s3 o3 del: run.simps(2))
qed

theorem duplicate_pid_rejected_witness:
  "run (fst (init \<lparr>ble_enable = True, scanner_isRunning = False, scanner_Start = True\<rparr> CONFIG)) initial_state
      [\<lparr>service_data = Some [(''fcd2'', DString [0x40, 0x00, 0x05])], rssi = - 53, addr = ''b0:c7:de:3b:29:15''\<rparr>,
       \<lparr>service_data = Some [(''fcd2'', DString [0x40, 0x00, 0x05])], rssi = - 53, addr = ''b0:c7:de:3b:29:15''\<rparr>,
       \<lparr>service_data = Some [(''fcd2'', DString [0x40, 0x00, 0x06])], rssi = - 53, addr = ''b0:c7:de:3b:29:15''\<rparr>] =
    (\<lparr>lastPacketId = JNum 6\<rparr>, [Admitted, Duplicate, Admitted])"
  using duplicate_pid_rejected
    [of "fst (init \<lparr>ble_enable = True, scanner_isRunning = False, scanner_Start = True\<rparr> CONFIG)"
      "\<lparr>service_data = Some [(''fcd2'', DString [0x40, 0x00, 0x05])], rssi = - 53, addr = ''b0:c7:de:3b:29:15''\<rparr>"
      "[(''encryption'', JBool False), (''BTHome_version'', JNum 2), (''pid'', JNum 5)]"
      "\<lparr>service_data = Some [(''fcd2'', DString [0x40, 0x00, 0x05])], rssi = - 53, addr = ''b0:c7:de:3b:29:15''\<rparr>"
      "[(''encryption'', JBool False), (''BTHome_version'', JNum 2), (''pid'', JNum 5)]"
      "\<lparr>service_data = Some [(''fcd2'', DString [0x40, 0x00, 0x06])], rssi = - 53, addr = ''b0:c7:de:3b:29:15''\<rparr>"
      "[(''encryption'', JBool False), (''BTHome_version'', JNum 2), (''pid'', JNum 6)]"
      5 6]
  by (simp add: init_def CONFIG_def Let_def lower_target fo1 decodes_def decodes_without_pid_def
      address_allowed_def BTHOME_SVC_ID_STR_def unpack_Cons unpack_loop.simps loop_body_def
      at_idx_def band_def sar_def BTH_def getBufValue_def getByteSize_def type_defs getUInt8_def
      del: run.simps)

text \<open>
  C9. A record without \<open>pid\<close> has \<open>undefined\<close> as its \<open>pid\<close>, which is not 0x100: the
  first scan result that decodes to such a record, from an allowed address, is admitted
  and leaves \<open>lastPacketId\<close> at \<open>undefined\<close>. Every scan result after it that decodes to a
  record without \<open>pid\<close> is rejected as a duplicate, however many there are, until a scan
  result decodes to a record with a \<open>pid\<close>: this one passes the test for duplicates and
  sets \<open>lastPacketId\<close> to its \<open>pid\<close>, whether it is then admitted or rejected as outside
  of the allowed addresses, and the next record without \<open>pid\<close> from an allowed address
  is admitted again. So a record without \<open>pid\<close> can be admitted although no record with
  a \<open>pid\<close> was admitted since the last one.
\<close>

theorem records_without_pid:
  assumes "decodes_without_pid cfg r0" and "address_allowed cfg (addr r0)"
    and "list_all (decodes_without_pid cfg) rs"
    and "decodes cfg r' data'" and "obj_get data' ''pid'' = JNum p"
    and "decodes_without_pid cfg r''" and "address_allowed cfg (addr r'')"
  shows "run cfg initial_state [r0] = (\<lparr>lastPacketId = JUndefined\<rparr>, [Admitted])
    \<and> run cfg initial_state (r0 # rs) =
        (\<lparr>lastPacketId = JUndefined\<rparr>, Admitted # replicate (length rs) Duplicate)
    \<and> run cfg initial_state (r0 # rs @ [r']) =
        (\<lparr>lastPacketId = JNum p\<rparr>,
         Admitted # replicate (length rs) Duplicate
           @ [if address_allowed cfg (addr r') then Admitted else AddressNotAllowed])
    \<and> run cfg initial_state (r0 # rs @ [r', r'']) =
        (\<lparr>lastPacketId = JUndefined\<rparr>,
         Admitted # replicate (length rs) Duplicate
           @ [if address_allowed cfg (addr r') then Admitted else AddressNotAllowed, Admitted])"
proof -
  let ?u = "\<lparr>lastPacketId = JUndefined\<rparr>" and ?p = "\<lparr>lastPacketId = JNum p\<rparr>"
  let ?oc = "if address_allowed cfg (addr r') then Admitted else AddressNotAllowed"
  from assms(1) obtain data0 where dec0: "decodes cfg r0 data0"
    and pid0: "obj_get data0 ''pid'' = JUndefined"
    by (rule decodes_without_pid_decodes)
  from assms(6) obtain data2 where dec2: "decodes cfg r'' data2"
    and pid2: "obj_get data2 ''pid'' = JUndefined"
    by (rule decodes_without_pid_decodes)
  have n0: "\<not> strict_eq (lastPacketId initial_state) (obj_get data0 ''pid'')"
    using dec0 by (rule decodes_pid_not_sentinel)
  from BLEScanCallback_decodes [OF dec0, of initial_state] n0 pid0
    address_allowed_outcome [OF assms(2)]
  have s0: "fst (BLEScanCallback cfg initial_state SCAN_RESULT r0) = ?u"
    and o0: "fst (snd (BLEScanCallback cfg initial_state SCAN_RESULT r0)) = Admitted"
    by (simp_all add: initial_state_def)
  have mid: "run cfg ?u rs = (?u, replicate (length rs) Duplicate)"
    using assms(3) by (rule run_without_pid) simp
  from BLEScanCallback_decodes [OF assms(4), of ?u] assms(5)
    address_outcome_allowed [OF assms(2), of "addr r'"]
  have s': "fst (BLEScanCallback cfg ?u SCAN_RESULT r') = ?p"
    and o': "fst (snd (BLEScanCallback cfg ?u SCAN_RESULT r')) = ?oc"
    by (simp_all add: strict_eq_def)
  from BLEScanCallback_decodes [OF dec2, of ?p] pid2
    address_allowed_outcome [OF assms(7)]
  have s2: "fst (BLEScanCallback cfg ?p SCAN_RESULT r'') = ?u"
    and o2: "fst (snd (BLEScanCallback cfg ?p SCAN_RESULT r'')) = Admitted"
    by (simp_all add: strict_eq_def)
  have one: "run cfg initial_state [r0] = (?u, [Admitted])"
    by (simp add: run_Cons s0 o0 del: run.simps(2))
  have two: "run cfg initial_state (r0 # rs) = (?u, Admitted # replicate (length rs) Duplicate)"
    by (simp add: run_Cons s0 o0 mid del: run.simps(2))
  have "run cfg ?u (rs @ [r']) = (?p, replicate (length rs) Duplicate @ [?oc])"
    by (simp add: run_append mid run_Cons s' o' del: run.simps(2))
  then have three: "run cfg initial_state (r0 # rs @ [r']) =
      (?p, Admitted # replicate (length rs) Duplicate @ [?oc])"
    by (simp add: run_Cons s0 o0 del: run.simps(2))
  have "run cfg ?u (rs @ [r', r'']) = (?u, replicate (length rs) Duplicate @ [?oc, Admitted])"
    by (simp add: run_append mid run_Cons s' o' s2 o2 del: run.simps(2))
  then have four: "run cfg initial_state (r0 # rs @ [r', r'']) =
      (?u, Admitted # replicate (length rs) Duplicate @ [?oc, Admitted])"
    by (simp add: run_Cons s0 o0 del: run.simps(2))
  from one two three four show ?thesis by simp
qed

theorem records_without_pid_witness:
  "run (fst (init \<lparr>ble_enable = True, scanner_isRunning = False, scanner_Start = True\<rparr> CONFIG)) initial_state
      [\<lparr>service_data = Some [(''fcd2'', DString [0x40, 0x01, 0x64])], rssi = - 53, addr = ''b0:c7:de:3b:29:15''\<rparr>,
       \<lparr>service_data = Some [(''fcd2'', DString [0x40])], rssi = - 53, addr = ''b0:c7:de:3b:29:15''\<rparr>,
       \<lparr>service_data = Some [(''fcd2'', DString [0x40, 0x21, 0x01])], rssi = - 53, addr = ''aa:bc:12:34:56:78''\<rparr>,
       \<lparr>service_data = Some [(''fcd2'', DString [0x40, 0x00, 0x07])], rssi = - 53, addr = ''aa:bc:12:34:56:78''\<rparr>,
       \<lparr>service_data = Some [(''fcd2'', DString [0x40, 0x21, 0x00])], rssi = - 53, addr = ''b0:c7:de:3b:29:15''\<rparr>] =
    (\<lparr>lastPacketId = JUndefined\<rparr>,
     [Admitted, Duplicate, Duplicate, AddressNotAllowed, Admitted])"
  using records_without_pid
    [of "fst (init \<lparr>ble_enable = True, scanner_isRunning = False, scanner_Start = True\<rparr> CONFIG)"
      "\<lparr>service_data = Some [(''fcd2'', DString [0x40, 0x01, 0x64])], rssi = - 53, addr = ''b0:c7:de:3b:29:15''\<rparr>"
      "[\<lparr>service_data = Some [(''fcd2'', DString [0x40])], rssi = - 53, addr = ''b0:c7:de:3b:29:15''\<rparr>,
        \<lparr>service_data = Some [(''fcd2'', DString [0x40, 0x21, 0x01])], rssi = - 53, addr = ''aa:bc:12:34:56:78''\<rparr>]"
      "\<lparr>service_data = Some [(''fcd2'', DString [0x40, 0x00, 0x07])], rssi = - 53, addr = ''aa:bc:12:34:56:78''\<rparr>"
      "[(''encryption'', JBool False), (''BTHome_version'', JNum 2), (''pid'', JNum 7)]"
      7
      "\<lparr>service_data = Some [(''fcd2'', DString [0x40, 0x21, 0x00])], rssi = - 53, addr = ''b0:c7:de:3b:29:15''\<rparr>"]
  by (simp add: init_def CONFIG_def Let_def lower_target fo1 decodes_def decodes_without_pid_def
      address_allowed_def BTHOME_SVC_ID_STR_def unpack_Cons unpack_loop.simps loop_body_def
      at_idx_def band_def sar_def BTH_def getBufValue_def getByteSize_def type_defs getUInt8_def
      del: run.simps)

theorem record_without_pid_admitted_after_rejected_pid:
  "run (fst (init \<lparr>ble_enable = True, scanner_isRunning = False, scanner_Start = True\<rparr> CONFIG)) initial_state
      [\<lparr>service_data = Some [(''fcd2'', DString [0x40, 0x01, 0x64])], rssi = - 53, addr = ''b0:c7:de:3b:29:15''\<rparr>,
       \<lparr>service_data = Some [(''fcd2'', DString [0x40, 0x00, 0x07])], rssi = - 53, addr = ''aa:bc:12:34:56:78''\<rparr>,
       \<lparr>service_data = Some [(''fcd2'', DString [0x40, 0x01, 0x64])], rssi = - 53, addr = ''b0:c7:de:3b:29:15''\<rparr>] =
    (\<lparr>lastPacketId = JUndefined\<rparr>, [Admitted, AddressNotAllowed, Admitted])"
  by (simp add: init_def CONFIG_def Let_def lower_target fo1 BLEScanCallback_def
      BTHOME_SVC_ID_STR_def initial_state_def unpack_Cons unpack_loop.simps loop_body_def
      at_idx_def band_def sar_def BTH_def getBufValue_def getByteSize_def type_defs getUInt8_def
      strict_eq_def onReceivedPacket_def logger_def)

end
